theory Spec2Isabelle
  imports Main
begin

section \<open>JavaScript values and string primitives\<close>

text \<open>
  Object literals of the source are kept as they are written: an object is the list of
  its properties in source order, an array is a list. Strings are lists of characters.
\<close>

datatype jsval =
    JUndefined
  | JBool bool
  | JNum int
  | JStr string
  | JArr "jsval list"
  | JObj "(string \<times> jsval) list"

text \<open>
  What the functions throw: the string of \<open>parseAttrsFromString\<close> with the segment it
  names, the error of \<open>readPrivateKey\<close>, the library's refusal of an encrypted PEM
  where a plain one is expected, a file that is not there, and the language's error for
  a variable that is assigned before its declaration has been evaluated.
\<close>

datatype error =
    SubjectsMalformed string
  | FailedToDecrypt
  | PemIsEncrypted
  | NoSuchFile string
  | ReferenceError string

text \<open>lodash \<open>isString\<close>.\<close>

fun isString :: "jsval \<Rightarrow> bool" where
  "isString (JStr s) = True"
| "isString v = False"

text \<open>
  \<open>String.prototype.split\<close> with a one-character separator: the pieces between the
  separators, empty pieces included; a string without the separator is one piece, and so
  is the empty string. A character other than the separator joins the first piece of
  the rest (there always is one, see \<open>str_split_not_Nil\<close>).
\<close>

fun str_split :: "char \<Rightarrow> string \<Rightarrow> string list" where
  "str_split sep [] = [[]]"
| "str_split sep (c # cs) =
     (if c = sep then [] # str_split sep cs
      else (case str_split sep cs of
              [] \<Rightarrow> [[c]]
            | piece # pieces \<Rightarrow> (c # piece) # pieces))"

text \<open>
  \<open>String.prototype.replace\<close> with a string pattern of one character: only the first
  occurrence of the pattern is replaced.
\<close>

fun str_replace :: "char \<Rightarrow> string \<Rightarrow> string \<Rightarrow> string" where
  "str_replace pat rep [] = []"
| "str_replace pat rep (c # cs) =
     (if c = pat then rep @ cs else c # str_replace pat rep cs)"

section \<open>Distinguished-name parser (sign.js, parseAttrsFromString)\<close>

text \<open>
  The characters that \<open>.\<close> does not match in a JavaScript regular expression
  (line feed and carriage return among the characters representable here).
\<close>

definition line_terminator :: "char \<Rightarrow> bool" where
  "line_terminator c = (c = CHR 0x0A \<or> c = CHR 0x0D)"

definition before_eq :: "string \<Rightarrow> string" where
  "before_eq pair = takeWhile (\<lambda>c. c \<noteq> CHR ''='') pair"

definition after_eq :: "string \<Rightarrow> string" where
  "after_eq pair = tl (dropWhile (\<lambda>c. c \<noteq> CHR ''='') pair)"

text \<open>
  \<open>pair.match(/^([^=]+)=(.+)$/)\<close>: the first group is the longest run of characters
  other than \<open>=\<close> at the start and must not be empty, an \<open>=\<close> must follow, and the
  second group is the whole rest, which must not be empty and must not hold a line
  terminator. The result is the two groups, \<open>None\<close> stands for \<open>null\<close>.
\<close>

definition match_pair :: "string \<Rightarrow> (string \<times> string) option" where
  "match_pair pair =
     (if before_eq pair = [] then None
      else if dropWhile (\<lambda>c. c \<noteq> CHR ''='') pair = [] then None
      else if after_eq pair = [] then None
      else if list_ex line_terminator (after_eq pair) then None
      else Some (before_eq pair, after_eq pair))"

text \<open>The body of \<open>pairs.forEach\<close>: push the attribute or throw at the first mismatch.\<close>

fun parse_pairs :: "string list \<Rightarrow> jsval list \<Rightarrow> error + jsval list" where
  "parse_pairs [] attrs = Inr attrs"
| "parse_pairs (pair # pairs) attrs =
     (case match_pair pair of
        Some (t, v) \<Rightarrow>
          parse_pairs pairs (attrs @ [JObj [(''shortName'', JStr t), (''value'', JStr v)]])
      | None \<Rightarrow> Inl (SubjectsMalformed pair))"

text \<open>\<open>pairs = dnStr.split('/'); pairs.shift()\<close>: the segments after the first one.\<close>

definition dn_pairs :: "string \<Rightarrow> string list" where
  "dn_pairs dnStr = tl (str_split CHR ''/'' dnStr)"

definition parseAttrsFromString :: "string \<Rightarrow> error + jsval list" where
  "parseAttrsFromString dnStr = parse_pairs (dn_pairs dnStr) []"

text \<open>
  The failure condition in the words of the specification: a segment that is not empty
  and holds no \<open>=\<close>.
\<close>

definition spec_offending :: "string \<Rightarrow> bool" where
  "spec_offending seg = (seg \<noteq> [] \<and> CHR ''='' \<notin> set seg)"

text \<open>
  The segments on which the parser fails, spelled out: no \<open>=\<close> at all (the empty
  segment is one of these), nothing before the first \<open>=\<close>, nothing after it, or a
  line terminator after it.
\<close>

definition malformed :: "string \<Rightarrow> bool" where
  "malformed seg =
     (CHR ''='' \<notin> set seg \<or> before_eq seg = [] \<or> after_eq seg = []
      \<or> list_ex line_terminator (after_eq seg))"

text \<open>
  The one-line form \<open>/Type0=Value0/Type1=Value1...\<close> of a list of types and values,
  and the pairs that can be written in it: neither part is empty or holds a slash, the
  type holds no \<open>=\<close>, the value no line terminator.
\<close>

definition dn_string :: "(string \<times> string) list \<Rightarrow> string" where
  "dn_string tvs = concat (map (\<lambda>(t, v). CHR ''/'' # t @ CHR ''='' # v) tvs)"

definition well_formed_pair :: "string \<times> string \<Rightarrow> bool" where
  "well_formed_pair tv =
     (fst tv \<noteq> [] \<and> CHR ''='' \<notin> set (fst tv) \<and> CHR ''/'' \<notin> set (fst tv)
      \<and> snd tv \<noteq> [] \<and> CHR ''/'' \<notin> set (snd tv)
      \<and> \<not> list_ex line_terminator (snd tv))"

section \<open>Subject alternative names (sign.js, getSAN)\<close>

text \<open>
  \<open>forEach(x => altNames.push(f(x)))\<close>: the array grows at its end, one entry for each
  element, from left to right.
\<close>

definition push_all :: "(string \<Rightarrow> jsval) \<Rightarrow> string list \<Rightarrow> jsval list \<Rightarrow> jsval list" where
  "push_all f xs arr = foldl (\<lambda>acc x. acc @ [f x]) arr xs"

definition uri_entry :: "string \<Rightarrow> jsval" where
  "uri_entry uri = JObj [(''type'', JNum 6), (''value'', JStr uri)]"

definition ip_entry :: "string \<Rightarrow> jsval" where
  "ip_entry ip = JObj [(''type'', JNum 7), (''ip'', JStr ip)]"

text \<open>
  The continuation of the prompt in \<open>getSAN\<close>, applied to the two answers. The
  separator of the lists is the comma; \<open>replace(' ', '')\<close> has a string pattern.
\<close>

definition getSAN :: "string \<Rightarrow> string \<Rightarrow> jsval list" where
  "getSAN uris ips =
     (let altNames0 = [];
          altNames1 = push_all uri_entry
                        (str_split CHR '','' (str_replace CHR '' '' [] uris)) altNames0;
          altNames2 = push_all ip_entry
                        (str_split CHR '','' (str_replace CHR '' '' [] ips)) altNames1
      in [JObj [(''name'', JStr ''subjectAltName''), (''altNames'', JArr altNames2)]])"

text \<open>A list of tokens written with commas between them, and nothing else.\<close>

fun join_commas :: "string list \<Rightarrow> string" where
  "join_commas [] = []"
| "join_commas [x] = x"
| "join_commas (x # y # ys) = x @ CHR '','' # join_commas (y # ys)"

definition plain_token :: "string \<Rightarrow> bool" where
  "plain_token s = (CHR '','' \<notin> set s \<and> CHR '' '' \<notin> set s)"

text \<open>Reading a SAN extension back: its entries, and the text an entry carries.\<close>

fun get_prop :: "string \<Rightarrow> jsval \<Rightarrow> jsval" where
  "get_prop key (JObj ps) = (case map_of ps key of Some v \<Rightarrow> v | None \<Rightarrow> JUndefined)"
| "get_prop key v = JUndefined"

fun altNames_of :: "jsval \<Rightarrow> jsval list" where
  "altNames_of ext = (case get_prop ''altNames'' ext of JArr es \<Rightarrow> es | _ \<Rightarrow> [])"

fun entry_text :: "jsval \<Rightarrow> string" where
  "entry_text e =
     (case get_prop ''value'' e of
        JStr s \<Rightarrow> s
      | _ \<Rightarrow> (case get_prop ''ip'' e of JStr s \<Rightarrow> s | _ \<Rightarrow> []))"

definition padded :: "string \<Rightarrow> bool" where
  "padded s = (s \<noteq> [] \<and> (hd s = CHR '' '' \<or> last s = CHR '' ''))"

section \<open>Extension sets (cert.js)\<close>

definition CA_EXTENSION_SET :: "jsval list" where
  "CA_EXTENSION_SET =
     [JObj [(''name'', JStr ''basicConstraints''),
            (''critical'', JBool True),
            (''cA'', JBool True)],
      JObj [(''name'', JStr ''keyUsage''),
            (''critical'', JBool True),
            (''digitalSignature'', JBool True),
            (''keyCertSign'', JBool True),
            (''cRLSign'', JBool True)]]"

definition SERVER_EXTENSION_SET :: "jsval list" where
  "SERVER_EXTENSION_SET =
     [JObj [(''name'', JStr ''basicConstraints''),
            (''critical'', JBool True),
            (''cA'', JBool False)],
      JObj [(''name'', JStr ''keyUsage''),
            (''critical'', JBool True),
            (''digitalSignature'', JBool True),
            (''keyEncipherment'', JBool True)],
      JObj [(''name'', JStr ''extKeyUsage''),
            (''critical'', JBool True),
            (''serverAuth'', JBool True),
            (''clientAuth'', JBool True)]]"

text \<open>
  The parts of an extension descriptor: its name, its criticality, and the remaining
  properties (the flags of the extension) in source order.
\<close>

fun ext_flags :: "jsval \<Rightarrow> (string \<times> jsval) list" where
  "ext_flags (JObj ps) = filter (\<lambda>(k, v). k \<noteq> ''name'' \<and> k \<noteq> ''critical'') ps"
| "ext_flags v = []"

definition describe_ext :: "jsval \<Rightarrow> jsval \<times> jsval \<times> (string \<times> jsval) list" where
  "describe_ext ext = (get_prop ''name'' ext, get_prop ''critical'' ext, ext_flags ext)"

section \<open>Private keys and their PEM form (cert.js, node-forge)\<close>

datatype privateKey = RsaPrivateKey nat nat nat

datatype publicKey = RsaPublicKey nat nat

text \<open>
  The PEM text of a private key, up to the cipher: either the plain key, or the key
  under a \<open>Proc-Type: 4,ENCRYPTED\<close> header with its \<open>DEK-Info\<close> (cipher name and
  initialization vector), sealed with a passphrase. Only the sealing passphrase opens it.
\<close>

datatype pem =
    PlainPem privateKey
  | EncryptedPem string nat string privateKey

text \<open>
  The four calls into node-forge, as its documentation describes them.
  \<open>encryptRsaPrivateKey\<close> is the call with \<open>{legacy: true, algorithm: '3des'}\<close>; the
  initialization vector is drawn at random by the library and is an argument here.
  \<open>decryptRsaPrivateKey\<close> returns \<open>null\<close> (here \<open>None\<close>) when the passphrase does not
  open the key, and reads a plain key whatever the passphrase. \<open>privateKeyFromPem\<close>
  throws on a PEM whose header says it is encrypted.
\<close>

definition privateKeyToPem :: "privateKey \<Rightarrow> pem" where
  "privateKeyToPem k = PlainPem k"

definition encryptRsaPrivateKey :: "privateKey \<Rightarrow> string \<Rightarrow> nat \<Rightarrow> pem" where
  "encryptRsaPrivateKey k password iv = EncryptedPem ''DES-EDE3-CBC'' iv password k"

fun decryptRsaPrivateKey :: "pem \<Rightarrow> string \<Rightarrow> privateKey option" where
  "decryptRsaPrivateKey (PlainPem k) password = Some k"
| "decryptRsaPrivateKey (EncryptedPem alg iv pw k) password =
     (if password = pw then Some k else None)"

fun privateKeyFromPem :: "pem \<Rightarrow> error + privateKey" where
  "privateKeyFromPem (PlainPem k) = Inr k"
| "privateKeyFromPem (EncryptedPem alg iv pw k) = Inl PemIsEncrypted"

fun is_encrypted :: "pem \<Rightarrow> bool" where
  "is_encrypted (PlainPem k) = False"
| "is_encrypted (EncryptedPem alg iv pw k) = True"

text \<open>
  The PEM text that \<open>writePrivateKey\<close> computes before it writes the file. For a
  passphrase that is not a string the source evaluates \<open>pem = pki.privateKeyToPem(...)\<close>
  inside the initializer of \<open>let pem\<close> itself: the plain PEM is computed, and the
  assignment to the variable, which is not initialized yet, throws a ReferenceError.
  (A build that turns \<open>let\<close> into \<open>var\<close> returns the plain PEM there instead.)
\<close>

definition encodePrivateKey :: "privateKey \<Rightarrow> jsval \<Rightarrow> nat \<Rightarrow> error + pem" where
  "encodePrivateKey privateKey passphrase iv =
     (case passphrase of
        JStr p \<Rightarrow> Inr (encryptRsaPrivateKey privateKey p iv)
      | _ \<Rightarrow> (let plain = privateKeyToPem privateKey in Inl (ReferenceError ''pem'')))"

text \<open>The continuation of \<open>readFileAsync\<close> in \<open>readPrivateKey\<close>.\<close>

definition decodePrivateKey :: "pem \<Rightarrow> jsval \<Rightarrow> error + privateKey" where
  "decodePrivateKey p passphrase =
     (case passphrase of
        JStr s \<Rightarrow>
          (if length s > 0 then
             (case decryptRsaPrivateKey p s of
                Some privateKey \<Rightarrow> Inr privateKey
              | None \<Rightarrow> Inl FailedToDecrypt)
           else privateKeyFromPem p)
      | _ \<Rightarrow> privateKeyFromPem p)"

text \<open>The key files on disk: a map from paths to PEM texts.\<close>

type_synonym keyFiles = "string \<rightharpoonup> pem"

definition writePrivateKey ::
  "privateKey \<Rightarrow> string \<Rightarrow> jsval \<Rightarrow> nat \<Rightarrow> keyFiles \<Rightarrow> error + keyFiles" where
  "writePrivateKey privateKey keyPath passphrase iv files =
     (case encodePrivateKey privateKey passphrase iv of
        Inl e \<Rightarrow> Inl e
      | Inr p \<Rightarrow> Inr (files(keyPath \<mapsto> p)))"

definition readPrivateKey :: "string \<Rightarrow> jsval \<Rightarrow> keyFiles \<Rightarrow> error + privateKey" where
  "readPrivateKey keyPath passphrase files =
     (case files keyPath of
        None \<Rightarrow> Inl (NoSuchFile keyPath)
      | Some p \<Rightarrow> decodePrivateKey p passphrase)"

section \<open>Dates (the Date object, in local civil time)\<close>

text \<open>
  A date is kept by what its getters return: \<open>getFullYear\<close>, \<open>getMonth\<close> (0 for
  January to 11 for December), \<open>getDate\<close> (the day of the month, from 1) and the
  milliseconds since the start of that day.
\<close>

record jsdate =
  getFullYear :: int
  getMonth :: nat
  getDate :: nat
  msOfDay :: nat

definition leap_year :: "int \<Rightarrow> bool" where
  "leap_year y = (y mod 4 = 0 \<and> (y mod 100 \<noteq> 0 \<or> y mod 400 = 0))"

definition days_in_month :: "int \<Rightarrow> nat \<Rightarrow> nat" where
  "days_in_month y m =
     (if m = 1 then (if leap_year y then 29 else 28)
      else if m = 3 \<or> m = 5 \<or> m = 8 \<or> m = 10 then 30
      else 31)"

definition valid_date :: "jsdate \<Rightarrow> bool" where
  "valid_date t =
     (getMonth t < 12 \<and> 1 \<le> getDate t
      \<and> getDate t \<le> days_in_month (getFullYear t) (getMonth t)
      \<and> msOfDay t < 86400000)"

text \<open>
  The day that is \<open>d - 1\<close> days after the first of month \<open>m\<close> of year \<open>y\<close>, as the
  language's \<open>MakeDay\<close> finds it: a day past the end of the month runs into the months
  that follow. The month and day come from a date, so the month is below 12 and the day
  at least 1.
\<close>

function make_day :: "int \<Rightarrow> nat \<Rightarrow> nat \<Rightarrow> int \<times> nat \<times> nat" where
  "make_day y m d =
     (if m < 12 \<and> days_in_month y m < d then
        (if m = 11 then make_day (y + 1) 0 (d - days_in_month y m)
         else make_day y (m + 1) (d - days_in_month y m))
      else (y, m, d))"
  by pat_completeness auto
termination
  by (relation "measure (\<lambda>(y, m, d). d)") (auto simp: days_in_month_def)

text \<open>
  The time value of a local date, in milliseconds from the start of 1970, with the
  language's \<open>DayFromYear\<close> and its table of the days before each month.
\<close>

definition day_from_year :: "int \<Rightarrow> int" where
  "day_from_year y =
     365 * (y - 1970) + (y - 1969) div 4 - (y - 1901) div 100 + (y - 1601) div 400"

definition days_before_month :: "int \<Rightarrow> nat \<Rightarrow> nat" where
  "days_before_month y m =
     [0, 31, 59, 90, 120, 151, 181, 212, 243, 273, 304, 334] ! m
     + (if 2 \<le> m \<and> leap_year y then 1 else 0)"

definition local_ms :: "jsdate \<Rightarrow> int" where
  "local_ms t =
     (day_from_year (getFullYear t) + int (days_before_month (getFullYear t) (getMonth t))
        + int (getDate t) - 1) * 86400000
     + int (msOfDay t)"

text \<open>
  The time zone of the process, by the two things \<open>setFullYear\<close> asks of it: the
  universal time of a local date (\<open>UTC(t)\<close>), and the local date that is read back
  from that universal time (\<open>LocalTime(UTC(t))\<close>), which is the same date unless a
  change of the clocks skips it. A zone with a fixed offset from universal time, in
  milliseconds, is one such zone.
\<close>

record timezone =
  utc_ms :: "jsdate \<Rightarrow> int"
  local_reading :: "jsdate \<Rightarrow> jsdate"

definition fixed_zone :: "int \<Rightarrow> timezone" where
  "fixed_zone offset =
     \<lparr>utc_ms = (\<lambda>t. local_ms t - offset), local_reading = (\<lambda>t. t)\<rparr>"

text \<open>
  \<open>Date.prototype.setFullYear\<close> with one argument, on a valid date: month, day and
  time of day are kept, the universal time of the date reached is clipped
  (\<open>TimeClip\<close>) to 8640000000000000 milliseconds either side of 1970, and the date is
  read back in local time. \<open>None\<close> is the Invalid Date.
\<close>

definition setFullYear :: "timezone \<Rightarrow> int \<Rightarrow> jsdate \<Rightarrow> jsdate option" where
  "setFullYear zone y t =
     (case make_day y (getMonth t) (getDate t) of
        (y', m', d') \<Rightarrow>
          (let reached = t\<lparr>getFullYear := y', getMonth := m', getDate := d'\<rparr>
           in if \<bar>utc_ms zone reached\<bar> \<le> 8640000000000000
              then Some (local_reading zone reached)
              else None))"

text \<open>
  A date moved by a number of calendar years: the same month, day and time of day in
  the year reached, and 1 March for a 29 February when that year is not a leap year.
\<close>

definition advance_years :: "int \<Rightarrow> jsdate \<Rightarrow> jsdate" where
  "advance_years n t =
     (if getMonth t = 1 \<and> getDate t = 29 \<and> \<not> leap_year (getFullYear t + n)
      then t\<lparr>getFullYear := getFullYear t + n, getMonth := 2, getDate := 1\<rparr>
      else t\<lparr>getFullYear := getFullYear t + n\<rparr>)"

section \<open>Certificates (cert.js, node-forge)\<close>

datatype digest = SHA1 | SHA256

datatype signature = RsaSignature privateKey digest

text \<open>The two dates of a certificate are Date objects: a date, or the Invalid Date.\<close>

record validity =
  notBefore :: "jsdate option"
  notAfter :: "jsdate option"

record certificate =
  publicKey :: "publicKey option"
  serialNumber :: string
  validity :: validity
  subject :: "jsval list"
  issuer :: "jsval list"
  extensions :: "jsval list"
  md :: "digest option"
  signatureOid :: "string option"
  signature :: "signature option"

text \<open>
  \<open>pki.createCertificate()\<close>: an empty certificate, whose validity dates are the time
  of the call. \<open>setSubject\<close>, \<open>setIssuer\<close> and \<open>setExtensions\<close> store their argument;
  the object identifiers and encodings that the library adds to the attributes and
  extensions it accepts are not part of the model, and neither are the bytes that are
  signed: a signature is the key and the digest it was made with.
\<close>

definition pki_createCertificate :: "jsdate \<Rightarrow> certificate" where
  "pki_createCertificate now =
     \<lparr>publicKey = None, serialNumber = ''00'',
      validity = \<lparr>notBefore = Some now, notAfter = Some now\<rparr>,
      subject = [], issuer = [], extensions = [],
      md = None, signatureOid = None, signature = None\<rparr>"

definition setSubject :: "jsval list \<Rightarrow> certificate \<Rightarrow> certificate" where
  "setSubject attrs cert = cert\<lparr>subject := attrs\<rparr>"

definition setIssuer :: "jsval list \<Rightarrow> certificate \<Rightarrow> certificate" where
  "setIssuer attrs cert = cert\<lparr>issuer := attrs\<rparr>"

definition setExtensions :: "jsval list \<Rightarrow> certificate \<Rightarrow> certificate" where
  "setExtensions exts cert = cert\<lparr>extensions := exts\<rparr>"

fun digest_algorithm :: "digest \<Rightarrow> string" where
  "digest_algorithm SHA1 = ''sha1''"
| "digest_algorithm SHA256 = ''sha256''"

text \<open>
  \<open>cert.sign(key, md)\<close>: the digest is the one given, or the library's default, SHA-1,
  when none is given; the signature algorithm is named after the digest.
\<close>

definition cert_sign :: "privateKey \<Rightarrow> digest option \<Rightarrow> certificate \<Rightarrow> certificate" where
  "cert_sign key mdArg cert =
     (let m = (case mdArg of Some given \<Rightarrow> given | None \<Rightarrow> SHA1)
      in cert\<lparr>md := Some m,
              signatureOid := Some (digest_algorithm m @ ''WithRSAEncryption''),
              signature := Some (RsaSignature key m)\<rparr>)"

text \<open>
  \<open>createCertificate\<close> after the key pair has been generated. \<open>ttl\<close> and \<open>serial\<close>
  have defaults; \<open>t0\<close> and \<open>t1\<close> are the readings of the clock by the two
  \<open>new Date()\<close> of the source, in that order, and \<open>zone\<close> is the time zone of the
  process. Both validity dates of the empty certificate are overwritten at once, so it
  is given the first reading. The year that \<open>notBefore.getFullYear()\<close> returns is the
  year of \<open>t0\<close>, and the date that \<open>setFullYear\<close> changes is \<open>t1\<close>.
\<close>

definition createCertificate ::
  "timezone \<Rightarrow> int option \<Rightarrow> jsval list \<Rightarrow> jsval list \<Rightarrow> string option
     \<Rightarrow> privateKey \<times> publicKey \<Rightarrow> jsdate \<Rightarrow> jsdate \<Rightarrow> privateKey \<times> certificate" where
  "createCertificate zone ttlArg attrs exts serialArg keys t0 t1 =
     (let ttl = (case ttlArg of Some n \<Rightarrow> n | None \<Rightarrow> 1);
          serial = (case serialArg of Some s \<Rightarrow> s | None \<Rightarrow> ''02'');
          cert = pki_createCertificate t0;
          cert = cert\<lparr>publicKey := Some (snd keys)\<rparr>;
          cert = cert\<lparr>serialNumber := serial\<rparr>;
          cert = cert\<lparr>validity := (validity cert)\<lparr>notBefore := Some t0\<rparr>\<rparr>;
          cert = cert\<lparr>validity := (validity cert)\<lparr>notAfter := Some t1\<rparr>\<rparr>;
          cert = cert\<lparr>validity := (validity cert)
                   \<lparr>notAfter := setFullYear zone (getFullYear t0 + ttl) t1\<rparr>\<rparr>;
          cert = setSubject attrs cert;
          cert = setExtensions exts cert
      in (fst keys, cert))"

definition selfSign :: "certificate \<Rightarrow> privateKey \<Rightarrow> certificate" where
  "selfSign cert privateKey = cert_sign privateKey None (setIssuer (subject cert) cert)"

definition signCertificate :: "certificate \<Rightarrow> privateKey \<Rightarrow> certificate \<Rightarrow> certificate" where
  "signCertificate cert CAKey CACert =
     cert_sign CAKey (Some SHA256) (setIssuer (subject CACert) cert)"

section \<open>Strings\<close>

lemma str_split_not_Nil: "str_split sep s \<noteq> []"
  by (induction s) (auto split: list.splits)

lemma str_split_no_sep: "sep \<notin> set s \<Longrightarrow> str_split sep s = [s]"
  by (induction s) auto

lemma str_split_append_sep:
  "sep \<notin> set a \<Longrightarrow> str_split sep (a @ sep # b) = a # str_split sep b"
  by (induction a) (auto split: list.splits simp: str_split_not_Nil)

lemma str_split_segments:
  "sep \<notin> set a \<Longrightarrow> \<forall>seg \<in> set segs. sep \<notin> set seg \<Longrightarrow>
     str_split sep (a @ concat (map ((#) sep) segs)) = a # segs"
proof (induction segs arbitrary: a)
  case Nil
  then show ?case by (simp add: str_split_no_sep)
next
  case (Cons x xs)
  then show ?case by (simp add: str_split_append_sep)
qed

section \<open>Distinguished names\<close>

lemma takeWhile_upto:
  "c \<notin> set t \<Longrightarrow> takeWhile (\<lambda>x. x \<noteq> c) (t @ c # v) = t"
  by (induction t) auto

lemma dropWhile_upto:
  "c \<notin> set t \<Longrightarrow> dropWhile (\<lambda>x. x \<noteq> c) (t @ c # v) = c # v"
  by (induction t) auto

text \<open>
  The matcher against the regular expression as a language: a match with groups \<open>t\<close>
  and \<open>v\<close> is a way to write the segment as \<open>t=v\<close> with \<open>t\<close> in \<open>[^=]+\<close> and
  \<open>v\<close> in \<open>.+\<close>.
\<close>

lemma match_pair_Some_iff:
  "match_pair pair = Some (t, v) \<longleftrightarrow>
     pair = t @ CHR ''='' # v \<and> t \<noteq> [] \<and> CHR ''='' \<notin> set t \<and> v \<noteq> []
     \<and> \<not> list_ex line_terminator v"
proof
  assume m: "match_pair pair = Some (t, v)"
  let ?P = "\<lambda>c. c \<noteq> CHR ''=''"
  from m have t: "t = takeWhile ?P pair" and v: "v = tl (dropWhile ?P pair)"
    and ne: "dropWhile ?P pair \<noteq> []" and tne: "t \<noteq> []" and vne: "v \<noteq> []"
    and lt: "\<not> list_ex line_terminator v"
    by (auto simp: match_pair_def before_eq_def after_eq_def split: if_splits)
  from ne have "hd (dropWhile ?P pair) = CHR ''=''"
    using hd_dropWhile[of ?P pair] by simp
  with ne v have "dropWhile ?P pair = CHR ''='' # v"
    by (cases "dropWhile ?P pair") auto
  then have "pair = t @ CHR ''='' # v"
    using takeWhile_dropWhile_id[of ?P pair] t by simp
  moreover have "CHR ''='' \<notin> set t"
    using t set_takeWhileD by fastforce
  ultimately show "pair = t @ CHR ''='' # v \<and> t \<noteq> [] \<and> CHR ''='' \<notin> set t \<and> v \<noteq> []
     \<and> \<not> list_ex line_terminator v"
    using tne vne lt by simp
next
  assume a: "pair = t @ CHR ''='' # v \<and> t \<noteq> [] \<and> CHR ''='' \<notin> set t \<and> v \<noteq> []
     \<and> \<not> list_ex line_terminator v"
  let ?P = "\<lambda>c. c \<noteq> CHR ''=''"
  from a have "takeWhile ?P pair = t"
    by (simp add: takeWhile_upto)
  moreover from a have "dropWhile ?P pair = CHR ''='' # v"
    by (simp add: dropWhile_upto)
  ultimately show "match_pair pair = Some (t, v)"
    using a by (simp add: match_pair_def before_eq_def after_eq_def)
qed

lemma match_pair_None_iff: "match_pair seg = None \<longleftrightarrow> malformed seg"
proof -
  have "dropWhile (\<lambda>c. c \<noteq> CHR ''='') seg = [] \<longleftrightarrow> CHR ''='' \<notin> set seg"
    by (auto simp: dropWhile_eq_Nil_conv)
  then show ?thesis
    by (auto simp: match_pair_def malformed_def)
qed

lemma match_pair_groups:
  "match_pair seg = Some (t, v) \<Longrightarrow> t = before_eq seg \<and> v = after_eq seg"
  by (auto simp: match_pair_def split: if_splits)

lemma parse_pairs_Inr:
  "\<not> list_ex malformed pairs \<Longrightarrow>
     parse_pairs pairs attrs =
       Inr (attrs @ map (\<lambda>seg. JObj [(''shortName'', JStr (before_eq seg)),
                                      (''value'', JStr (after_eq seg))]) pairs)"
proof (induction pairs arbitrary: attrs)
  case Nil
  then show ?case by simp
next
  case (Cons p ps)
  then have "match_pair p \<noteq> None" by (simp add: match_pair_None_iff)
  then obtain t v where m: "match_pair p = Some (t, v)" by auto
  with Cons show ?case
    using match_pair_groups[OF m] by simp
qed

lemma parse_pairs_Inl:
  "\<not> list_ex malformed pre \<Longrightarrow> malformed seg \<Longrightarrow>
     parse_pairs (pre @ seg # post) attrs = Inl (SubjectsMalformed seg)"
proof (induction pre arbitrary: attrs)
  case Nil
  then have "match_pair seg = None" by (simp add: match_pair_None_iff)
  then show ?case by simp
next
  case (Cons p ps)
  then have "match_pair p \<noteq> None" by (simp add: match_pair_None_iff)
  then obtain t v where m: "match_pair p = Some (t, v)" by auto
  with Cons show ?case by simp
qed

lemma first_malformed:
  "list_ex malformed pairs \<Longrightarrow>
     \<exists>pre seg post. pairs = pre @ seg # post \<and> malformed seg \<and> \<not> list_ex malformed pre"
proof (induction pairs)
  case Nil
  then show ?case by simp
next
  case (Cons p ps)
  show ?case
  proof (cases "malformed p")
    case True
    then have "p # ps = [] @ p # ps \<and> malformed p \<and> \<not> list_ex malformed []" by simp
    then show ?thesis by blast
  next
    case False
    with Cons obtain pre seg post where
      "ps = pre @ seg # post" "malformed seg" "\<not> list_ex malformed pre" by auto
    with False have "p # ps = (p # pre) @ seg # post \<and> malformed seg
        \<and> \<not> list_ex malformed (p # pre)" by simp
    then show ?thesis by blast
  qed
qed


lemma dn_pairs_dn_string:
  assumes "list_all well_formed_pair tvs" and "CHR ''/'' \<notin> set lead"
  shows "dn_pairs (lead @ dn_string tvs) = map (\<lambda>(t, v). t @ CHR ''='' # v) tvs"
proof -
  let ?segs = "map (\<lambda>(t, v). t @ CHR ''='' # v) tvs"
  have ds: "dn_string tvs = concat (map ((#) CHR ''/'') ?segs)"
    by (induction tvs) (auto simp: dn_string_def)
  have "\<forall>seg \<in> set ?segs. CHR ''/'' \<notin> set seg"
    using assms(1) by (auto simp: list_all_iff well_formed_pair_def)
  with assms(2) have "str_split CHR ''/'' (lead @ concat (map ((#) CHR ''/'') ?segs))
      = lead # ?segs"
    by (rule str_split_segments)
  then show ?thesis
    unfolding dn_pairs_def ds by simp
qed

lemma well_formed_groups:
  assumes "well_formed_pair (t, v)"
  shows "before_eq (t @ CHR ''='' # v) = t" and "after_eq (t @ CHR ''='' # v) = v"
    and "\<not> malformed (t @ CHR ''='' # v)"
proof -
  from assms have "match_pair (t @ CHR ''='' # v) = Some (t, v)"
    by (simp add: match_pair_Some_iff well_formed_pair_def)
  then show "before_eq (t @ CHR ''='' # v) = t" and "after_eq (t @ CHR ''='' # v) = v"
    and "\<not> malformed (t @ CHR ''='' # v)"
    using match_pair_groups[of "t @ CHR ''='' # v" t v]
      match_pair_None_iff[of "t @ CHR ''='' # v"] by simp_all
qed

text \<open>
  Claim C3, as the code has it. \<open>parseAttrsFromString\<close> throws exactly when one of the
  segments after the first is malformed: it holds no \<open>=\<close> (as the empty segment does),
  or nothing before its first \<open>=\<close>, or nothing after it, or a line terminator after
  it. The error names the first such segment. When there is none, every segment is cut
  at its first \<open>=\<close> into a type and a value, both not empty, and the attributes are
  these, segment by segment.
\<close>

theorem parse_failure_condition:
  "((\<exists>seg. parseAttrsFromString s = Inl (SubjectsMalformed seg))
      \<longleftrightarrow> list_ex malformed (dn_pairs s))
   \<and> (parseAttrsFromString s = Inl e \<longrightarrow>
        (\<exists>pre seg post. dn_pairs s = pre @ seg # post \<and> e = SubjectsMalformed seg
           \<and> malformed seg \<and> \<not> list_ex malformed pre))
   \<and> (parseAttrsFromString s = Inr attrs \<longrightarrow>
        attrs = map (\<lambda>seg. JObj [(''shortName'', JStr (before_eq seg)),
                                  (''value'', JStr (after_eq seg))]) (dn_pairs s)
        \<and> (\<forall>seg \<in> set (dn_pairs s).
              seg = before_eq seg @ CHR ''='' # after_eq seg
              \<and> CHR ''='' \<notin> set (before_eq seg)
              \<and> before_eq seg \<noteq> [] \<and> after_eq seg \<noteq> []))"
proof (cases "list_ex malformed (dn_pairs s)")
  case True
  then obtain pre seg post where d: "dn_pairs s = pre @ seg # post" "malformed seg"
      "\<not> list_ex malformed pre"
    using first_malformed by blast
  then have "parseAttrsFromString s = Inl (SubjectsMalformed seg)"
    by (simp add: parseAttrsFromString_def parse_pairs_Inl)
  with True d show ?thesis by auto
next
  case False
  then have r: "parseAttrsFromString s =
      Inr (map (\<lambda>seg. JObj [(''shortName'', JStr (before_eq seg)),
                             (''value'', JStr (after_eq seg))]) (dn_pairs s))"
    by (simp add: parseAttrsFromString_def parse_pairs_Inr)
  have "\<forall>seg \<in> set (dn_pairs s).
              seg = before_eq seg @ CHR ''='' # after_eq seg
              \<and> CHR ''='' \<notin> set (before_eq seg)
              \<and> before_eq seg \<noteq> [] \<and> after_eq seg \<noteq> []"
  proof
    fix seg assume "seg \<in> set (dn_pairs s)"
    with False have "\<not> malformed seg" by (auto simp: list_ex_iff)
    then have "match_pair seg \<noteq> None" by (simp add: match_pair_None_iff)
    then obtain t v where m: "match_pair seg = Some (t, v)" by auto
    then show "seg = before_eq seg @ CHR ''='' # after_eq seg
              \<and> CHR ''='' \<notin> set (before_eq seg)
              \<and> before_eq seg \<noteq> [] \<and> after_eq seg \<noteq> []"
      using match_pair_groups[OF m] match_pair_Some_iff[of seg t v] by simp
  qed
  with False r show ?thesis by simp
qed

theorem parse_failure_condition_witness:
  "parseAttrsFromString ''/C=a=b/Ous/O=x'' = Inl (SubjectsMalformed ''Ous'')
   \<and> list_ex malformed (dn_pairs ''/C=a=b/Ous/O=x'')
   \<and> parseAttrsFromString ''/C=a=b'' =
       Inr [JObj [(''shortName'', JStr ''C''), (''value'', JStr ''a=b'')]]
   \<and> \<not> list_ex malformed (dn_pairs ''/C=a=b'')"
  using parse_failure_condition [of "''/C=a=b/Ous/O=x''" "SubjectsMalformed ''Ous''" "[]"]
    parse_failure_condition [of "''/C=a=b''" "SubjectsMalformed []"
      "[JObj [(''shortName'', JStr ''C''), (''value'', JStr ''a=b'')]]"]
  by (simp add: parseAttrsFromString_def dn_pairs_def match_pair_def before_eq_def
      after_eq_def malformed_def line_terminator_def)

text \<open>
  The parser also throws where no segment is without \<open>=\<close>: on a segment with an
  empty value, and on the empty segment that a trailing slash leaves.
\<close>

theorem parse_failure_counterexample:
  "parseAttrsFromString ''/C='' = Inl (SubjectsMalformed ''C='')
   \<and> \<not> list_ex spec_offending (dn_pairs ''/C='')
   \<and> parseAttrsFromString ''/C=US/'' = Inl (SubjectsMalformed [])
   \<and> \<not> list_ex spec_offending (dn_pairs ''/C=US/'')"
  by (simp add: parseAttrsFromString_def dn_pairs_def match_pair_def before_eq_def
      after_eq_def spec_offending_def line_terminator_def)

text \<open>
  Claim C4. \<open>/C=US/O=aaa\<close> gives the attributes C=US and O=aaa in this order. Any
  list of well-formed types and values, written in the one-line form after a first
  segment without slash, is parsed back to the same list: same order, repetitions kept.
  The empty string gives no attribute.
\<close>

theorem parse_well_formed:
  assumes "list_all well_formed_pair tvs" and "CHR ''/'' \<notin> set lead"
  shows "parseAttrsFromString ''/C=US/O=aaa'' =
           Inr [JObj [(''shortName'', JStr ''C''), (''value'', JStr ''US'')],
                JObj [(''shortName'', JStr ''O''), (''value'', JStr ''aaa'')]]
         \<and> parseAttrsFromString (lead @ dn_string tvs) =
           Inr (map (\<lambda>(t, v). JObj [(''shortName'', JStr t), (''value'', JStr v)]) tvs)
         \<and> parseAttrsFromString [] = Inr []"
proof -
  have ex: "parseAttrsFromString ''/C=US/O=aaa'' =
           Inr [JObj [(''shortName'', JStr ''C''), (''value'', JStr ''US'')],
                JObj [(''shortName'', JStr ''O''), (''value'', JStr ''aaa'')]]"
    by (simp add: parseAttrsFromString_def dn_pairs_def match_pair_def before_eq_def
        after_eq_def line_terminator_def)
  have emp: "parseAttrsFromString [] = Inr []"
    by (simp add: parseAttrsFromString_def dn_pairs_def)
  let ?segs = "map (\<lambda>(t, v). t @ CHR ''='' # v) tvs"
  have segs: "dn_pairs (lead @ dn_string tvs) = ?segs"
    using assms by (rule dn_pairs_dn_string)
  have ok: "\<not> list_ex malformed ?segs"
    using assms(1) by (auto simp: list_ex_iff list_all_iff well_formed_groups)
  have "map (\<lambda>seg. JObj [(''shortName'', JStr (before_eq seg)),
                           (''value'', JStr (after_eq seg))]) ?segs
        = map (\<lambda>(t, v). JObj [(''shortName'', JStr t), (''value'', JStr v)]) tvs"
    using assms(1) by (auto simp: list_all_iff well_formed_groups)
  with segs ok have "parseAttrsFromString (lead @ dn_string tvs) =
           Inr (map (\<lambda>(t, v). JObj [(''shortName'', JStr t), (''value'', JStr v)]) tvs)"
    by (simp add: parseAttrsFromString_def parse_pairs_Inr)
  with ex emp show ?thesis by simp
qed

theorem parse_well_formed_witness:
  "parseAttrsFromString ''/C=US/O=aaa/C=US'' =
     Inr [JObj [(''shortName'', JStr ''C''), (''value'', JStr ''US'')],
          JObj [(''shortName'', JStr ''O''), (''value'', JStr ''aaa'')],
          JObj [(''shortName'', JStr ''C''), (''value'', JStr ''US'')]]"
proof -
  have wf: "list_all well_formed_pair [(''C'', ''US''), (''O'', ''aaa''), (''C'', ''US'')]"
    by (simp add: well_formed_pair_def line_terminator_def)
  have lead: "CHR ''/'' \<notin> set []" by simp
  show ?thesis
    using parse_well_formed [OF wf lead] by (simp add: dn_string_def)
qed

section \<open>Signing: issuer and digest\<close>

lemma cert_sign_fields:
  "issuer (cert_sign key mdArg cert) = issuer cert"
  "subject (cert_sign key mdArg cert) = subject cert"
  "validity (cert_sign key mdArg cert) = validity cert"
  by (simp_all add: cert_sign_def Let_def)

lemma createCertificate_cert:
  "snd (createCertificate zone ttlArg attrs exts serialArg keys t0 t1) =
     \<lparr>publicKey = Some (snd keys),
      serialNumber = (case serialArg of Some s \<Rightarrow> s | None \<Rightarrow> ''02''),
      validity = \<lparr>notBefore = Some t0,
                  notAfter = setFullYear zone
                    (getFullYear t0 + (case ttlArg of Some n \<Rightarrow> n | None \<Rightarrow> 1)) t1\<rparr>,
      subject = attrs, issuer = [], extensions = exts,
      md = None, signatureOid = None, signature = None\<rparr>"
  by (simp add: createCertificate_def pki_createCertificate_def setSubject_def
      setExtensions_def Let_def)

text \<open>
  Claim C7. After \<open>selfSign\<close> the issuer of the certificate is its own subject; after
  \<open>signCertificate\<close> it is the subject of the CA certificate that was supplied. Neither
  changes the subject, and \<open>createCertificate\<close>, the only other operation that builds
  a certificate, leaves the issuer as the empty list the library starts with.
\<close>

theorem issuer_consistency:
  "issuer (selfSign cert privateKey) = subject (selfSign cert privateKey)
   \<and> subject (selfSign cert privateKey) = subject cert
   \<and> issuer (signCertificate cert CAKey CACert) = subject CACert
   \<and> subject (signCertificate cert CAKey CACert) = subject cert
   \<and> issuer (snd (createCertificate zone ttlArg attrs exts serialArg keys t0 t1)) = []"
  by (simp add: selfSign_def signCertificate_def cert_sign_fields setIssuer_def
      createCertificate_cert)

theorem issuer_consistency_witness:
  "issuer (selfSign (setSubject [JObj [(''shortName'', JStr ''CN''), (''value'', JStr ''Test CA'')]]
             (pki_createCertificate \<lparr>getFullYear = 2024, getMonth = 0, getDate = 1, msOfDay = 0\<rparr>))
           (RsaPrivateKey 3233 17 413))
     = [JObj [(''shortName'', JStr ''CN''), (''value'', JStr ''Test CA'')]]"
  using issuer_consistency
    [of "setSubject [JObj [(''shortName'', JStr ''CN''), (''value'', JStr ''Test CA'')]]
           (pki_createCertificate \<lparr>getFullYear = 2024, getMonth = 0, getDate = 1, msOfDay = 0\<rparr>)"
        "RsaPrivateKey 3233 17 413"]
  by (simp add: setSubject_def)

text \<open>
  Claim C10. \<open>selfSign\<close> passes no digest to the library, so the certificate is signed
  with the library's default, SHA-1, and its signature algorithm is
  sha1WithRSAEncryption; \<open>signCertificate\<close> signs with SHA-256. So the root CA
  certificate of the \<open>sign-ca\<close> command, which is created and then self-signed, carries
  a SHA-1 signature.
\<close>

theorem signing_digest_asymmetry:
  "md (selfSign cert privateKey) = Some SHA1
   \<and> signatureOid (selfSign cert privateKey) = Some ''sha1WithRSAEncryption''
   \<and> signature (selfSign cert privateKey) = Some (RsaSignature privateKey SHA1)
   \<and> md (signCertificate cert CAKey CACert) = Some SHA256
   \<and> signatureOid (signCertificate cert CAKey CACert) = Some ''sha256WithRSAEncryption''
   \<and> signature (signCertificate cert CAKey CACert) = Some (RsaSignature CAKey SHA256)
   \<and> signatureOid (selfSign (snd (createCertificate zone (Some 2) attrs CA_EXTENSION_SET
                                      (Some ''01'') keys t0 t1)) (fst keys))
       = Some ''sha1WithRSAEncryption''"
  by (simp add: selfSign_def signCertificate_def cert_sign_def Let_def)

section \<open>Validity window\<close>

lemma days_in_month_bounds: "28 \<le> days_in_month y m \<and> days_in_month y m \<le> 31"
  by (simp add: days_in_month_def)

lemma days_in_month_other_year:
  "m \<noteq> 1 \<Longrightarrow> days_in_month y m = days_in_month y' m"
  by (simp add: days_in_month_def)

lemma make_day_fits:
  "d \<le> days_in_month y m \<Longrightarrow> make_day y m d = (y, m, d)"
  by (subst make_day.simps) simp

lemma make_day_valid:
  assumes "m < 12" and "1 \<le> d" and "d \<le> days_in_month y0 m"
  shows "make_day y m d =
           (if m = 1 \<and> d = 29 \<and> \<not> leap_year y then (y, 2, 1) else (y, m, d))"
proof (cases "d \<le> days_in_month y m")
  case True
  then have "\<not> (m = 1 \<and> d = 29 \<and> \<not> leap_year y)"
    by (auto simp: days_in_month_def split: if_splits)
  with True show ?thesis by (simp add: make_day_fits)
next
  case False
  with assms(3) have m1: "m = 1" using days_in_month_other_year[of m y0 y] by auto
  with False assms(3) have d: "d = 29" and nl: "\<not> leap_year y"
    by (auto simp: days_in_month_def split: if_splits)
  have "make_day y 1 29 = make_day y 2 1"
    using nl by (subst make_day.simps) (simp add: days_in_month_def)
  also have "\<dots> = (y, 2, 1)"
    by (rule make_day_fits) (simp add: days_in_month_def)
  finally show ?thesis using m1 d nl by simp
qed

lemma setFullYear_valid:
  assumes "valid_date t"
  shows "setFullYear zone (getFullYear t + n) t =
           (if \<bar>utc_ms zone (advance_years n t)\<bar> \<le> 8640000000000000
            then Some (local_reading zone (advance_years n t))
            else None)"
proof -
  let ?y = "getFullYear t + n"
  from assms have "make_day ?y (getMonth t) (getDate t) =
      (if getMonth t = 1 \<and> getDate t = 29 \<and> \<not> leap_year ?y then (?y, 2, 1)
       else (?y, getMonth t, getDate t))"
    using make_day_valid [of "getMonth t" "getDate t" "getFullYear t" ?y]
    by (simp add: valid_date_def)
  then show ?thesis by (simp add: setFullYear_def advance_years_def Let_def)
qed

text \<open>
  What \<open>createCertificate\<close> stores as \<open>notAfter\<close> when both readings of the clock are
  the same valid date, in every zone and for every \<open>ttl\<close>: the date advanced by
  \<open>ttl\<close> years as the zone reads it back, or the Invalid Date when that date is
  outside the range of Date.
\<close>

lemma createCertificate_notAfter:
  assumes "valid_date now"
  shows "notAfter (validity (snd
           (createCertificate zone (Some ttl) attrs exts serialArg keys now now)))
         = (if \<bar>utc_ms zone (advance_years ttl now)\<bar> \<le> 8640000000000000
            then Some (local_reading zone (advance_years ttl now))
            else None)"
  using setFullYear_valid [OF assms, of zone ttl]
  by (simp add: createCertificate_cert)

text \<open>
  Claim C8, as the code has it. Let both readings of the clock give the same valid date
  \<open>now\<close>, and let \<open>now\<close> advanced by \<open>ttl\<close> calendar years lie within the range of
  Date and be a local time that the zone does not skip. Then \<open>notBefore\<close> is \<open>now\<close>
  and \<open>notAfter\<close> is \<open>now\<close> advanced by \<open>ttl\<close> years: the year differs by exactly
  \<open>ttl\<close>, the time of day is that of \<open>now\<close>, and so are month and day, except that
  29 February becomes 1 March when the year reached is not a leap year.
\<close>

theorem validity_window:
  assumes "valid_date now"
    and "\<bar>utc_ms zone (advance_years ttl now)\<bar> \<le> 8640000000000000"
    and "local_reading zone (advance_years ttl now) = advance_years ttl now"
  shows "notBefore (validity (snd
             (createCertificate zone (Some ttl) attrs exts serialArg keys now now)))
           = Some now
         \<and> notAfter (validity (snd
             (createCertificate zone (Some ttl) attrs exts serialArg keys now now)))
           = Some (advance_years ttl now)
         \<and> getFullYear (advance_years ttl now) - getFullYear now = ttl
         \<and> msOfDay (advance_years ttl now) = msOfDay now
         \<and> (if getMonth now = 1 \<and> getDate now = 29 \<and> \<not> leap_year (getFullYear now + ttl)
             then getMonth (advance_years ttl now) = 2 \<and> getDate (advance_years ttl now) = 1
             else getMonth (advance_years ttl now) = getMonth now
                  \<and> getDate (advance_years ttl now) = getDate now)"
proof -
  have "notAfter (validity (snd
             (createCertificate zone (Some ttl) attrs exts serialArg keys now now)))
           = Some (advance_years ttl now)"
    using createCertificate_notAfter [OF assms(1), of zone ttl attrs exts serialArg keys]
      assms(2,3) by simp
  then show ?thesis
    by (simp add: createCertificate_cert advance_years_def)
qed

theorem validity_window_witness:
  "notAfter (validity (snd (createCertificate (fixed_zone 28800000) (Some 3) []
       SERVER_EXTENSION_SET (Some ''02'')
       (RsaPrivateKey 3233 17 413, RsaPublicKey 3233 17)
       \<lparr>getFullYear = 2026, getMonth = 10, getDate = 3, msOfDay = 43200000\<rparr>
       \<lparr>getFullYear = 2026, getMonth = 10, getDate = 3, msOfDay = 43200000\<rparr>)))
     = Some \<lparr>getFullYear = 2029, getMonth = 10, getDate = 3, msOfDay = 43200000\<rparr>"
proof -
  let ?now = "\<lparr>getFullYear = 2026, getMonth = 10, getDate = 3, msOfDay = 43200000\<rparr>"
  have v: "valid_date ?now"
    by (simp add: valid_date_def days_in_month_def)
  have a: "advance_years 3 ?now
      = \<lparr>getFullYear = 2029, getMonth = 10, getDate = 3, msOfDay = 43200000\<rparr>"
    by (simp add: advance_years_def)
  have r: "\<bar>utc_ms (fixed_zone 28800000) (advance_years 3 ?now)\<bar> \<le> 8640000000000000"
    unfolding a
    by (simp add: fixed_zone_def local_ms_def day_from_year_def days_before_month_def
        leap_year_def)
  have l: "local_reading (fixed_zone 28800000) (advance_years 3 ?now) = advance_years 3 ?now"
    by (simp add: fixed_zone_def)
  show ?thesis
    using validity_window [OF v r l, of "[]" SERVER_EXTENSION_SET "Some ''02''"
        "(RsaPrivateKey 3233 17 413, RsaPublicKey 3233 17)"] a
    by simp
qed

text \<open>
  With a \<open>ttl\<close> of 3 years from 29 February 2024, in universal time, \<open>notAfter\<close> is
  1 March 2027: the years differ by 3, month and day are not those of \<open>notBefore\<close>.
\<close>

theorem validity_feb29_counterexample:
  "notBefore (validity (snd (createCertificate (fixed_zone 0) (Some 3) [] [] None
       (RsaPrivateKey 3233 17 413, RsaPublicKey 3233 17)
       \<lparr>getFullYear = 2024, getMonth = 1, getDate = 29, msOfDay = 0\<rparr>
       \<lparr>getFullYear = 2024, getMonth = 1, getDate = 29, msOfDay = 0\<rparr>)))
     = Some \<lparr>getFullYear = 2024, getMonth = 1, getDate = 29, msOfDay = 0\<rparr>
   \<and> notAfter (validity (snd (createCertificate (fixed_zone 0) (Some 3) [] [] None
       (RsaPrivateKey 3233 17 413, RsaPublicKey 3233 17)
       \<lparr>getFullYear = 2024, getMonth = 1, getDate = 29, msOfDay = 0\<rparr>
       \<lparr>getFullYear = 2024, getMonth = 1, getDate = 29, msOfDay = 0\<rparr>)))
     = Some \<lparr>getFullYear = 2027, getMonth = 2, getDate = 1, msOfDay = 0\<rparr>"
proof -
  have "make_day 2027 1 29 = make_day 2027 2 1"
    by (subst make_day.simps) (simp add: days_in_month_def leap_year_def)
  also have "\<dots> = (2027, 2, 1)"
    by (subst make_day.simps) (simp add: days_in_month_def)
  finally show ?thesis
    by (simp add: createCertificate_cert setFullYear_def fixed_zone_def local_ms_def
        day_from_year_def days_before_month_def leap_year_def)
qed

text \<open>
  Beyond the range of Date there is no date at all: with a \<open>ttl\<close> of 300000 years
  \<open>notAfter\<close> is the Invalid Date.
\<close>

lemma validity_out_of_range:
  "notAfter (validity (snd (createCertificate (fixed_zone 0) (Some 300000) [] [] None
       (RsaPrivateKey 3233 17 413, RsaPublicKey 3233 17)
       \<lparr>getFullYear = 2026, getMonth = 10, getDate = 3, msOfDay = 0\<rparr>
       \<lparr>getFullYear = 2026, getMonth = 10, getDate = 3, msOfDay = 0\<rparr>)))
     = None"
proof -
  have "make_day 302026 10 3 = (302026, 10, 3)"
    by (rule make_day_fits) (simp add: days_in_month_def)
  then show ?thesis
    by (simp add: createCertificate_cert setFullYear_def fixed_zone_def local_ms_def
        day_from_year_def days_before_month_def leap_year_def)
qed

section \<open>Extension sets\<close>

text \<open>
  Claim C9, as the code has it. The CA set is basicConstraints (critical, cA true) and
  keyUsage (critical) with the three flags digitalSignature, keyCertSign and cRLSign.
  The server set is basicConstraints (critical, cA false), keyUsage (critical) with
  digitalSignature and keyEncipherment, and extKeyUsage (critical) with serverAuth and
  clientAuth.
\<close>

theorem extension_sets_contents:
  "map describe_ext CA_EXTENSION_SET =
     [(JStr ''basicConstraints'', JBool True, [(''cA'', JBool True)]),
      (JStr ''keyUsage'', JBool True,
         [(''digitalSignature'', JBool True), (''keyCertSign'', JBool True),
          (''cRLSign'', JBool True)])]
   \<and> map describe_ext SERVER_EXTENSION_SET =
     [(JStr ''basicConstraints'', JBool True, [(''cA'', JBool False)]),
      (JStr ''keyUsage'', JBool True,
         [(''digitalSignature'', JBool True), (''keyEncipherment'', JBool True)]),
      (JStr ''extKeyUsage'', JBool True,
         [(''serverAuth'', JBool True), (''clientAuth'', JBool True)])]"
  by (simp add: CA_EXTENSION_SET_def SERVER_EXTENSION_SET_def describe_ext_def)

text \<open>
  The keyUsage extension of the CA set does not have exactly the flags keyCertSign and
  cRLSign: digitalSignature is set as well.
\<close>

theorem ca_keyUsage_flags_counterexample:
  "set (map fst (ext_flags (CA_EXTENSION_SET ! 1))) \<noteq> {''keyCertSign'', ''cRLSign''}"
proof -
  have "''digitalSignature'' \<in> set (map fst (ext_flags (CA_EXTENSION_SET ! 1)))"
    by (simp add: CA_EXTENSION_SET_def)
  moreover have "''digitalSignature'' \<notin> {''keyCertSign'', ''cRLSign''}"
    by simp
  ultimately show ?thesis by metis
qed

section \<open>Private keys: encoding and decoding\<close>

lemma encode_string:
  "encodePrivateKey k (JStr p) iv = Inr (EncryptedPem ''DES-EDE3-CBC'' iv p k)"
  by (simp add: encodePrivateKey_def encryptRsaPrivateKey_def)

lemma encode_not_string:
  "\<not> isString passphrase \<Longrightarrow> encodePrivateKey k passphrase iv = Inl (ReferenceError ''pem'')"
  by (cases passphrase) (simp_all add: encodePrivateKey_def Let_def)

lemma roundtrip_nonempty_passphrase:
  "p \<noteq> [] \<Longrightarrow>
     decodePrivateKey (EncryptedPem ''DES-EDE3-CBC'' iv p k) (JStr p) = Inr k"
  by (simp add: decodePrivateKey_def)

text \<open>
  Claim C1 at the empty passphrase. The key is written encrypted, since the empty
  string is a string; it is read back as a plain key, since the empty string has length
  0; the library refuses the encrypted text, and no key is returned.
\<close>

theorem roundtrip_empty_passphrase_fails:
  "encodePrivateKey (RsaPrivateKey 3233 17 413) (JStr []) 7
     = Inr (EncryptedPem ''DES-EDE3-CBC'' 7 [] (RsaPrivateKey 3233 17 413))
   \<and> decodePrivateKey (EncryptedPem ''DES-EDE3-CBC'' 7 [] (RsaPrivateKey 3233 17 413))
        (JStr [])
     = Inl PemIsEncrypted
   \<and> writePrivateKey (RsaPrivateKey 3233 17 413) ''ca.key'' (JStr []) 7 Map.empty
     = Inr [''ca.key'' \<mapsto> EncryptedPem ''DES-EDE3-CBC'' 7 [] (RsaPrivateKey 3233 17 413)]
   \<and> readPrivateKey ''ca.key'' (JStr [])
        [''ca.key'' \<mapsto> EncryptedPem ''DES-EDE3-CBC'' 7 [] (RsaPrivateKey 3233 17 413)]
     = Inl PemIsEncrypted"
  by (simp add: decodePrivateKey_def encodePrivateKey_def encryptRsaPrivateKey_def
      readPrivateKey_def writePrivateKey_def)

text \<open>
  Claim C2 at the empty passphrase. The encoding step encrypts the key under the empty
  passphrase, with the triple-DES header, where the claim has a plain PEM.
\<close>

theorem empty_passphrase_encrypts:
  "encodePrivateKey (RsaPrivateKey 3233 17 413) (JStr []) 7
     = Inr (EncryptedPem ''DES-EDE3-CBC'' 7 [] (RsaPrivateKey 3233 17 413))
   \<and> is_encrypted (EncryptedPem ''DES-EDE3-CBC'' 7 [] (RsaPrivateKey 3233 17 413))"
  by (simp add: encodePrivateKey_def encryptRsaPrivateKey_def)

section \<open>Subject alternative names\<close>

lemma push_all_map: "push_all f xs arr = arr @ map f xs"
  unfolding push_all_def by (induction xs arbitrary: arr) simp_all

lemma str_replace_absent: "pat \<notin> set s \<Longrightarrow> str_replace pat rep s = s"
  by (induction s) auto

lemma str_split_join_commas:
  "ts \<noteq> [] \<Longrightarrow> \<forall>t \<in> set ts. CHR '','' \<notin> set t \<Longrightarrow>
     str_split CHR '','' (join_commas ts) = ts"
proof (induction ts rule: join_commas.induct)
  case 1
  then show ?case by simp
next
  case (2 x)
  then show ?case by (simp add: str_split_no_sep)
next
  case (3 x y ys)
  then show ?case by (simp add: str_split_append_sep)
qed

lemma set_join_commas:
  "set (join_commas ts) \<subseteq> insert CHR '','' (\<Union> (set ` set ts))"
  by (induction ts rule: join_commas.induct) auto

lemma tokens_join_commas:
  assumes "ts \<noteq> []" and "list_all plain_token ts"
  shows "str_split CHR '','' (str_replace CHR '' '' [] (join_commas ts)) = ts"
proof -
  have "CHR '' '' \<notin> set (join_commas ts)"
    using assms(2) set_join_commas[of ts] by (auto simp: list_all_iff plain_token_def)
  moreover have "\<forall>t \<in> set ts. CHR '','' \<notin> set t"
    using assms(2) by (auto simp: list_all_iff plain_token_def)
  ultimately show ?thesis
    using assms(1) by (simp add: str_replace_absent str_split_join_commas)
qed

lemma getSAN_altNames:
  "getSAN uris ips =
     [JObj [(''name'', JStr ''subjectAltName''),
            (''altNames'',
             JArr (map uri_entry (str_split CHR '','' (str_replace CHR '' '' [] uris))
                   @ map ip_entry (str_split CHR '','' (str_replace CHR '' '' [] ips))))]]"
  by (simp add: getSAN_def push_all_map Let_def)

text \<open>
  Claim C5. For any two answers the result is one extension named subjectAltName whose
  entries are one entry of type 6 for each token of the URI list, in order, and then one
  entry of type 7 for each token of the IP list, in order; the tokens are the pieces
  between the commas, after the first space has been removed. A URI entry carries its
  token in the property \<open>value\<close>, an IP entry in the property \<open>ip\<close>. For lists
  written with commas only, the tokens are the names that were written.
\<close>

theorem san_structure:
  assumes "us \<noteq> []" and "list_all plain_token us"
    and "is \<noteq> []" and "list_all plain_token is"
  shows "getSAN uris ips =
           [JObj [(''name'', JStr ''subjectAltName''),
                  (''altNames'',
                   JArr (map (\<lambda>uri. JObj [(''type'', JNum 6), (''value'', JStr uri)])
                           (str_split CHR '','' (str_replace CHR '' '' [] uris))
                         @ map (\<lambda>ip. JObj [(''type'', JNum 7), (''ip'', JStr ip)])
                             (str_split CHR '','' (str_replace CHR '' '' [] ips))))]]
         \<and> getSAN (join_commas us) (join_commas is) =
           [JObj [(''name'', JStr ''subjectAltName''),
                  (''altNames'',
                   JArr (map (\<lambda>uri. JObj [(''type'', JNum 6), (''value'', JStr uri)]) us
                         @ map (\<lambda>ip. JObj [(''type'', JNum 7), (''ip'', JStr ip)]) is))]]
         \<and> map entry_text (altNames_of (hd (getSAN (join_commas us) (join_commas is))))
             = us @ is
         \<and> getSAN ''a.com,b.com'' ''127.0.0.1'' =
           [JObj [(''name'', JStr ''subjectAltName''),
                  (''altNames'',
                   JArr [JObj [(''type'', JNum 6), (''value'', JStr ''a.com'')],
                         JObj [(''type'', JNum 6), (''value'', JStr ''b.com'')],
                         JObj [(''type'', JNum 7), (''ip'', JStr ''127.0.0.1'')]])]]"
proof -
  have uri: "uri_entry = (\<lambda>uri. JObj [(''type'', JNum 6), (''value'', JStr uri)])"
    and ip: "ip_entry = (\<lambda>ip. JObj [(''type'', JNum 7), (''ip'', JStr ip)])"
    by (auto simp: uri_entry_def ip_entry_def)
  have a: "getSAN uris ips =
           [JObj [(''name'', JStr ''subjectAltName''),
                  (''altNames'',
                   JArr (map (\<lambda>uri. JObj [(''type'', JNum 6), (''value'', JStr uri)])
                           (str_split CHR '','' (str_replace CHR '' '' [] uris))
                         @ map (\<lambda>ip. JObj [(''type'', JNum 7), (''ip'', JStr ip)])
                             (str_split CHR '','' (str_replace CHR '' '' [] ips))))]]"
    by (simp add: getSAN_altNames uri ip)
  have b: "getSAN (join_commas us) (join_commas is) =
           [JObj [(''name'', JStr ''subjectAltName''),
                  (''altNames'',
                   JArr (map (\<lambda>uri. JObj [(''type'', JNum 6), (''value'', JStr uri)]) us
                         @ map (\<lambda>ip. JObj [(''type'', JNum 7), (''ip'', JStr ip)]) is))]]"
    using assms by (simp add: getSAN_altNames uri ip tokens_join_commas)
  have c: "map entry_text (altNames_of (hd (getSAN (join_commas us) (join_commas is))))
             = us @ is"
    unfolding b by (simp add: comp_def)
  have d: "getSAN ''a.com,b.com'' ''127.0.0.1'' =
           [JObj [(''name'', JStr ''subjectAltName''),
                  (''altNames'',
                   JArr [JObj [(''type'', JNum 6), (''value'', JStr ''a.com'')],
                         JObj [(''type'', JNum 6), (''value'', JStr ''b.com'')],
                         JObj [(''type'', JNum 7), (''ip'', JStr ''127.0.0.1'')]])]]"
    by (simp add: getSAN_altNames uri ip)
  from a b c d show ?thesis by simp
qed

theorem san_structure_witness:
  "getSAN ''localhost,a.com,a.com'' ''127.0.0.1,10.0.0.6'' =
     [JObj [(''name'', JStr ''subjectAltName''),
            (''altNames'',
             JArr [JObj [(''type'', JNum 6), (''value'', JStr ''localhost'')],
                   JObj [(''type'', JNum 6), (''value'', JStr ''a.com'')],
                   JObj [(''type'', JNum 6), (''value'', JStr ''a.com'')],
                   JObj [(''type'', JNum 7), (''ip'', JStr ''127.0.0.1'')],
                   JObj [(''type'', JNum 7), (''ip'', JStr ''10.0.0.6'')]])]]"
proof -
  have u: "[''localhost'', ''a.com'', ''a.com''] \<noteq> []" by simp
  have pu: "list_all plain_token [''localhost'', ''a.com'', ''a.com'']"
    by (simp add: plain_token_def)
  have i: "[''127.0.0.1'', ''10.0.0.6''] \<noteq> []" by simp
  have pi: "list_all plain_token [''127.0.0.1'', ''10.0.0.6'']"
    by (simp add: plain_token_def)
  show ?thesis
    using san_structure [OF u pu i pi] by simp
qed

text \<open>
  Claim C6 at a list with two spaces. Only the first space is removed before the split,
  so the third name keeps its leading space.
\<close>

theorem san_second_space_kept:
  "map entry_text (altNames_of (hd (getSAN ''a.com, b.com, c.com'' ''127.0.0.1'')))
     = [''a.com'', ''b.com'', '' c.com'', ''127.0.0.1'']
   \<and> list_ex padded
        (map entry_text (altNames_of (hd (getSAN ''a.com, b.com, c.com'' ''127.0.0.1''))))"
  by (simp add: getSAN_def push_all_def uri_entry_def ip_entry_def padded_def Let_def)

end
